theory Spec2Isabelle
  imports Main "HOL-Library.Sublist"
begin

section \<open>Values handled by the collector\<close>

text \<open>
  The collector (\<^verbatim>\<open>cloud_vm_collector.py\<close>) works on the Python values that
  \<^verbatim>\<open>response.json()\<close> produces. A Python string is modelled as a \<open>string\<close> whose
  characters are the code points below 256; text with code points beyond U+00FF is
  outside the model. A float is represented by its \<^verbatim>\<open>repr\<close> (the text Python prints
  for it, such as \<^verbatim>\<open>0.096\<close>, \<^verbatim>\<open>1e-05\<close>, \<^verbatim>\<open>nan\<close> or \<^verbatim>\<open>-inf\<close>): the program only
  tests floats for truth and turns them into text, and both are functions of the
  \<^verbatim>\<open>repr\<close>. A dict is an association list in insertion order.
\<close>

datatype json =
    JNull
  | JBool bool
  | JInt int
  | JFloat string
  | JStr string
  | JArr "json list"
  | JObj "(string \<times> json) list"

text \<open>The characters that can occur in the \<^verbatim>\<open>repr\<close> of a float.\<close>

definition float_repr_ok :: "string \<Rightarrow> bool" where
  "float_repr_ok f \<longleftrightarrow> f \<noteq> [] \<and> set f \<subseteq> set ''0123456789.e+-infa''"

text \<open>Python's truth value of an object, as used by \<^verbatim>\<open>if x\<close>, \<^verbatim>\<open>not x\<close> and \<^verbatim>\<open>while x\<close>.\<close>

fun truthy :: "json \<Rightarrow> bool" where
  "truthy JNull = False"
| "truthy (JBool b) = b"
| "truthy (JInt i) = (i \<noteq> 0)"
| "truthy (JFloat f) = (f \<noteq> ''0.0'' \<and> f \<noteq> ''-0.0'')"
| "truthy (JStr s) = (s \<noteq> [])"
| "truthy (JArr xs) = (xs \<noteq> [])"
| "truthy (JObj kvs) = (kvs \<noteq> [])"

text \<open>\<^verbatim>\<open>d.get(key, default)\<close> and \<^verbatim>\<open>d.get(key)\<close> on a dict.\<close>

definition dict_get :: "(string \<times> json) list \<Rightarrow> string \<Rightarrow> json \<Rightarrow> json" where
  "dict_get kvs k d = (case map_of kvs k of None \<Rightarrow> d | Some v \<Rightarrow> v)"

subsection \<open>Text conversion\<close>

text \<open>\<^verbatim>\<open>str.lower()\<close> on code points below 256: A-Z and the accented capitals
  U+00C0..U+00DE (without the multiplication sign U+00D7) move up by 32.\<close>

definition lower_char :: "char \<Rightarrow> char" where
  "lower_char c =
     (let n = (of_char c :: nat)
      in if (65 \<le> n \<and> n \<le> 90) \<or> (192 \<le> n \<and> n \<le> 222 \<and> n \<noteq> 215)
         then char_of (n + 32) else c)"

definition lower :: "string \<Rightarrow> string" where
  "lower s = map lower_char s"

text \<open>\<^verbatim>\<open>sep.join(parts)\<close>.\<close>

fun join :: "string \<Rightarrow> string list \<Rightarrow> string" where
  "join sep [] = []"
| "join sep [p] = p"
| "join sep (p # q # ps) = p @ sep @ join sep (q # ps)"

text \<open>
  The text \<^verbatim>\<open>str(n)\<close> returns for an integer: decimal digits, with a minus sign
  when negative. CPython (from 3.11, with its default setting) returns it for an
  integer of at most \<open>max_str_digits\<close> digits and raises \<^verbatim>\<open>ValueError\<close> for a longer
  one; \<^verbatim>\<open>json.loads\<close> refuses the same integers, so that \<^verbatim>\<open>response.json()\<close> never
  yields one.
\<close>

definition digit_char :: "nat \<Rightarrow> char" where
  "digit_char d = char_of (48 + d)"

function digits :: "nat \<Rightarrow> string" where
  "digits n = (if n < 10 then [digit_char n] else digits (n div 10) @ [digit_char (n mod 10)])"
  by pat_completeness auto
termination
  by (relation "measure id") auto

declare digits.simps [simp del]

definition str_int :: "int \<Rightarrow> string" where
  "str_int i = (if i < 0 then CHR ''-'' # digits (nat (- i)) else digits (nat i))"

text \<open>
  \<^verbatim>\<open>repr(s)\<close> of a string: single quotes, unless the string has a single quote and no
  double quote; the quote character and the backslash are escaped, tab, newline and
  carriage return are written \<^verbatim>\<open>\t\<close>, \<^verbatim>\<open>\n\<close>, \<^verbatim>\<open>\r\<close>, and every other
  non-printable code point below 256 as \<^verbatim>\<open>\xhh\<close>.
\<close>

definition hex_char :: "nat \<Rightarrow> char" where
  "hex_char d = (if d < 10 then char_of (48 + d) else char_of (87 + d))"

definition printable :: "char \<Rightarrow> bool" where
  "printable c =
     (let n = (of_char c :: nat)
      in (32 \<le> n \<and> n < 127) \<or> (161 \<le> n \<and> n \<noteq> 173))"

definition repr_char :: "char \<Rightarrow> char \<Rightarrow> string" where
  "repr_char quote c =
     (if c = quote \<or> c = CHR 0x5C then [CHR 0x5C, c]
      else if c = CHR 0x09 then [CHR 0x5C, CHR ''t'']
      else if c = CHR 0x0A then [CHR 0x5C, CHR ''n'']
      else if c = CHR 0x0D then [CHR 0x5C, CHR ''r'']
      else if printable c then [c]
      else [CHR 0x5C, CHR ''x'', hex_char (of_char c div 16), hex_char (of_char c mod 16)])"

definition repr_str :: "string \<Rightarrow> string" where
  "repr_str s =
     (let quote = (if CHR 0x27 \<in> set s \<and> CHR 0x22 \<notin> set s then CHR 0x22 else CHR 0x27)
      in quote # concat (map (repr_char quote) s) @ [quote])"

text \<open>
  The text \<^verbatim>\<open>repr(x)\<close> returns: containers print the \<^verbatim>\<open>repr\<close> of their elements.
  CPython returns it when the nesting of the containers stays within the room its
  recursion limit leaves, and raises \<^verbatim>\<open>RecursionError\<close> beyond.
\<close>

fun py_repr :: "json \<Rightarrow> string" where
  "py_repr JNull = ''None''"
| "py_repr (JBool b) = (if b then ''True'' else ''False'')"
| "py_repr (JInt i) = str_int i"
| "py_repr (JFloat f) = f"
| "py_repr (JStr s) = repr_str s"
| "py_repr (JArr xs) = ''['' @ join '', '' (map py_repr xs) @ '']''"
| "py_repr (JObj kvs) =
     ''{'' @ join '', '' (map (\<lambda>kv. repr_str (fst kv) @ '': '' @ py_repr (snd kv)) kvs) @ ''}''"

text \<open>The text \<^verbatim>\<open>str(x)\<close> returns: a string is itself, everything else prints as
  its \<^verbatim>\<open>repr\<close>.\<close>

definition py_str :: "json \<Rightarrow> string" where
  "py_str x = (case x of JStr s \<Rightarrow> s | _ \<Rightarrow> py_repr x)"

text \<open>
  When \<^verbatim>\<open>str(x)\<close> returns, for an interpreter that has room for \<open>room\<close> nested
  calls of \<^verbatim>\<open>repr\<close>: no integer in \<open>x\<close> has more than \<open>max_str_digits\<close> digits and
  the containers of \<open>x\<close> are nested at most \<open>room\<close> deep. Elsewhere \<^verbatim>\<open>str\<close> raises,
  and the functions above give no account of it.
\<close>

definition max_str_digits :: nat where
  "max_str_digits = 4300"

fun str_returns :: "nat \<Rightarrow> json \<Rightarrow> bool" where
  "str_returns room JNull = True"
| "str_returns room (JBool b) = True"
| "str_returns room (JInt i) = (length (digits (nat \<bar>i\<bar>)) \<le> max_str_digits)"
| "str_returns room (JFloat f) = True"
| "str_returns room (JStr s) = True"
| "str_returns room (JArr xs) = (0 < room \<and> (\<forall>x\<in>set xs. str_returns (room - 1) x))"
| "str_returns room (JObj kvs) = (0 < room \<and> (\<forall>kv\<in>set kvs. str_returns (room - 1) (snd kv)))"

section \<open>The vendor classifier\<close>

text \<open>
  \<^verbatim>\<open>_extract_cpu_vendor(text)\<close>: the argument is turned into text, lowercased, and
  searched for the vendor names in a fixed order. \<^verbatim>\<open>a in b\<close> on strings is the
  contiguous-substring test \<^const>\<open>sublist\<close>. This is the result on the arguments
  on which \<^verbatim>\<open>str\<close> returns (\<^const>\<open>str_returns\<close>); on the others the function raises
  what \<^verbatim>\<open>str\<close> raises.
\<close>

definition extract_cpu_vendor :: "json \<Rightarrow> string" where
  "extract_cpu_vendor text =
     (let text = lower (py_str text)
      in if sublist ''amd'' text then ''AMD''
         else if sublist ''intel'' text then ''Intel''
         else if sublist ''arm'' text \<or> sublist ''ampere'' text then ''ARM''
         else ''Unknown'')"

text \<open>
  The reading of "the text contains the word in any letter case": some contiguous
  piece of the text becomes the word when lowercased.
\<close>

definition occurs_in_any_case :: "string \<Rightarrow> string \<Rightarrow> bool" where
  "occurs_in_any_case w s \<longleftrightarrow> (\<exists>u. sublist u s \<and> lower u = w)"

text \<open>
  Values without any string inside: \<^verbatim>\<open>None\<close>, booleans, numbers, the empty dict,
  and lists of such values.
\<close>

fun no_text :: "json \<Rightarrow> bool" where
  "no_text JNull = True"
| "no_text (JBool b) = True"
| "no_text (JInt i) = True"
| "no_text (JFloat f) = float_repr_ok f"
| "no_text (JStr s) = False"
| "no_text (JArr xs) = list_all no_text xs"
| "no_text (JObj kvs) = (kvs = [])"

text \<open>
  The characters of the text of a value without strings, and the property that
  every \<open>T\<close> in a text is followed by \<open>r\<close> (it only occurs in \<^verbatim>\<open>True\<close>). A text
  with both is called tame.
\<close>

definition plain_chars :: "char list" where
  "plain_chars = ''NoneTruFals0123456789.+-infa[], {}''"

fun t_then_r :: "string \<Rightarrow> bool" where
  "t_then_r [] = True"
| "t_then_r (c # cs) =
     ((c = CHR ''T'' \<longrightarrow> (case cs of [] \<Rightarrow> False | d # ds \<Rightarrow> d = CHR ''r'')) \<and> t_then_r cs)"

definition tame :: "string \<Rightarrow> bool" where
  "tame s \<longleftrightarrow> set s \<subseteq> set plain_chars \<and> t_then_r s"

section \<open>HTTP requests\<close>

text \<open>
  What one \<^verbatim>\<open>session.get(url, timeout=60)\<close> can do: raise
  \<^verbatim>\<open>requests.exceptions.Timeout\<close>, raise another exception (connection error,
  retries exhausted, invalid URL), or return a response with a status code and a
  body; \<open>None\<close> is a body that \<^verbatim>\<open>response.json()\<close> rejects (not JSON, or JSON
  with an integer too long or a nesting too deep for the parser). The network is a
  script: the list of the outcomes of the successive requests, in the order they are
  issued.
\<close>

datatype reply = GetTimeout | GetError | Response nat "json option"

datatype exn =
    TimeoutExc
  | RequestExc
  | HTTPError
  | JSONDecodeError
  | AttributeError
  | TypeError
  | ValueError

text \<open>\<^verbatim>\<open>response.raise_for_status()\<close> raises for the status codes 400 to 599.\<close>

definition raise_for_status :: "nat \<Rightarrow> bool" where
  "raise_for_status status \<longleftrightarrow> 400 \<le> status \<and> status < 600"

text \<open>The three calls \<^verbatim>\<open>session.get\<close>, \<^verbatim>\<open>raise_for_status\<close>, \<^verbatim>\<open>response.json\<close>.\<close>

definition get_json :: "reply \<Rightarrow> exn + json" where
  "get_json r =
     (case r of
        GetTimeout \<Rightarrow> Inl TimeoutExc
      | GetError \<Rightarrow> Inl RequestExc
      | Response status body \<Rightarrow>
          if raise_for_status status then Inl HTTPError
          else (case body of None \<Rightarrow> Inl JSONDecodeError | Some data \<Rightarrow> Inr data))"

section \<open>Azure retail prices: the paginated fetcher\<close>

record priced_record =
  VM_Name :: string
  Product_Name :: json
  Location :: json
  Unit_Price_USD :: json
  Currency :: json
  Meter_Region :: json
  CPU_Vendor :: string
  Series :: string
  Service_Family :: json
  Type :: json
  Arm_SKU :: string

definition base_url :: string where
  "base_url =
     ''https://prices.azure.com/api/retail/prices?$filter=serviceName eq '' @
     [CHR 0x27] @ ''Virtual Machines'' @ [CHR 0x27]"

definition series_filter :: "string list" where
  "series_filter = [''P'', ''T'', ''B'', ''D'', ''H'', ''F'']"

text \<open>The dict literal of lines 71 to 83, for an item whose \<^verbatim>\<open>armSkuName\<close> is \<open>sku\<close>.\<close>

definition project_item :: "(string \<times> json) list \<Rightarrow> string \<Rightarrow> priced_record" where
  "project_item item sku =
     \<lparr> VM_Name = sku,
       Product_Name = dict_get item ''productName'' JNull,
       Location = dict_get item ''armRegionName'' JNull,
       Unit_Price_USD = dict_get item ''unitPrice'' JNull,
       Currency = dict_get item ''currencyCode'' JNull,
       Meter_Region = dict_get item ''meterRegion'' JNull,
       CPU_Vendor = extract_cpu_vendor (dict_get item ''productName'' (JStr [])),
       Series = (if length sku > 1 then take 2 sku else sku),
       Service_Family = dict_get item ''serviceFamily'' JNull,
       Type = dict_get item ''type'' JNull,
       Arm_SKU = sku \<rparr>"

text \<open>
  \<^verbatim>\<open>for item in items\<close>: a list yields its elements, a dict its keys, a string its
  characters; anything else raises \<^verbatim>\<open>TypeError\<close>.
\<close>

definition iterate :: "json \<Rightarrow> exn + json list" where
  "iterate items =
     (case items of
        JArr xs \<Rightarrow> Inr xs
      | JObj kvs \<Rightarrow> Inr (map (\<lambda>kv. JStr (fst kv)) kvs)
      | JStr s \<Rightarrow> Inr (map (\<lambda>c. JStr [c]) s)
      | _ \<Rightarrow> Inl TypeError)"

text \<open>
  The loop of lines 66 to 83 over the items of one page. \<open>all_items\<close> is the list
  collected from the earlier pages: the loop reads its length and does not change it.
  \<^verbatim>\<open>item.get\<close> raises \<^verbatim>\<open>AttributeError\<close> on an item that is not a dict, and so does
  \<^verbatim>\<open>sku.startswith\<close> on a true value that is not a string.
\<close>

fun filter_items ::
  "int \<Rightarrow> priced_record list \<Rightarrow> json list \<Rightarrow> priced_record list \<Rightarrow> exn + priced_record list"
where
  "filter_items limit all_items [] filtered_items = Inr filtered_items"
| "filter_items limit all_items (item # items) filtered_items =
     (if int (length all_items) \<ge> limit then Inr filtered_items
      else (case item of
              JObj d \<Rightarrow>
                (let sku = dict_get d ''armSkuName'' (JStr [])
                 in if \<not> truthy sku then filter_items limit all_items items filtered_items
                    else (case sku of
                            JStr s \<Rightarrow>
                              if list_ex (\<lambda>p. prefix p s) series_filter
                              then filter_items limit all_items items
                                     (filtered_items @ [project_item d s])
                              else filter_items limit all_items items filtered_items
                          | _ \<Rightarrow> Inl AttributeError))
            | _ \<Rightarrow> Inl AttributeError))"

text \<open>
  Lines 63 to 90 for one parsed body: the filtered records of the page and the value
  of \<^verbatim>\<open>data.get("NextPageLink")\<close>. \<^verbatim>\<open>data.get\<close> raises \<^verbatim>\<open>AttributeError\<close> when the
  body is not a dict.
\<close>

definition process_page ::
  "int \<Rightarrow> priced_record list \<Rightarrow> json \<Rightarrow> exn + (priced_record list \<times> json)"
where
  "process_page limit all_items data =
     (case data of
        JObj d \<Rightarrow>
          (case iterate (dict_get d ''Items'' (JArr [])) of
             Inl e \<Rightarrow> Inl e
           | Inr items \<Rightarrow>
               (case filter_items limit all_items items [] of
                  Inl e \<Rightarrow> Inl e
                | Inr filtered_items \<Rightarrow> Inr (filtered_items, dict_get d ''NextPageLink'' JNull)))
      | _ \<Rightarrow> Inl AttributeError)"

text \<open>
  The state of the \<^verbatim>\<open>while\<close> loop: the cursor \<open>next_page\<close>, the records collected so
  far, and the arguments of the calls of \<^verbatim>\<open>session.get\<close> made so far. The page
  counter, the progress bar, the console output and the delay between pages are not
  modelled.
\<close>

record fetch_state =
  next_page :: json
  all_items :: "priced_record list"
  requests :: "json list"

text \<open>
  The body of the \<^verbatim>\<open>try\<close> (lines 59 to 93) after the request has been issued: an
  exception, or the new state and whether the \<^verbatim>\<open>break\<close> of line 92 was taken.
\<close>

definition try_page :: "int \<Rightarrow> reply \<Rightarrow> fetch_state \<Rightarrow> exn + (fetch_state \<times> bool)" where
  "try_page limit r st =
     (case get_json r of
        Inl e \<Rightarrow> Inl e
      | Inr data \<Rightarrow>
          (case process_page limit (all_items st) data of
             Inl e \<Rightarrow> Inl e
           | Inr (filtered_items, next) \<Rightarrow>
               (let st' = st\<lparr>all_items := all_items st @ filtered_items, next_page := next\<rparr>
                in Inr (st', \<not> truthy next \<or> int (length (all_items st')) \<ge> limit))))"

text \<open>
  A run either returns, or is back at the head of the loop, about to issue a request
  for which the script holds no outcome.
\<close>

datatype run = Returns fetch_state | Awaits fetch_state

fun fetch_loop :: "int \<Rightarrow> reply list \<Rightarrow> fetch_state \<Rightarrow> run" where
  "fetch_loop limit [] st =
     (if truthy (next_page st) \<and> int (length (all_items st)) < limit
      then Awaits st else Returns st)"
| "fetch_loop limit (r # script) st =
     (if truthy (next_page st) \<and> int (length (all_items st)) < limit
      then (let st1 = st\<lparr>requests := requests st @ [next_page st]\<rparr>
            in case try_page limit r st1 of
                 Inl e \<Rightarrow> if e = TimeoutExc then fetch_loop limit script st1 else Returns st1
               | Inr (st2, stop) \<Rightarrow> if stop then Returns st2 else fetch_loop limit script st2)
      else Returns st)"

definition fetch_azure_vm_pricing :: "int \<Rightarrow> reply list \<Rightarrow> run" where
  "fetch_azure_vm_pricing limit script =
     fetch_loop limit script \<lparr>next_page = JStr base_url, all_items = [], requests = []\<rparr>"

text \<open>The rows of the returned \<^verbatim>\<open>DataFrame\<close>, when the run returns.\<close>

definition returned :: "run \<Rightarrow> priced_record list option" where
  "returned res = (case res of Returns st \<Rightarrow> Some (all_items st) | Awaits st \<Rightarrow> None)"

text \<open>
  A record made from one of the items of a list: its two SKU fields hold the
  \<^verbatim>\<open>armSkuName\<close> of the item, a string that is not empty. And a record made from an
  item of the page that a reply carries.
\<close>

definition from_items :: "json list \<Rightarrow> priced_record \<Rightarrow> bool" where
  "from_items items r \<longleftrightarrow>
     (\<exists>item. JObj item \<in> set items \<and>
             dict_get item ''armSkuName'' (JStr []) = JStr (VM_Name r)) \<and>
     Arm_SKU r = VM_Name r \<and> VM_Name r \<noteq> []"

definition from_page :: "reply \<Rightarrow> priced_record \<Rightarrow> bool" where
  "from_page p r \<longleftrightarrow>
     (\<exists>d items. get_json p = Inr (JObj d) \<and>
                dict_get d ''Items'' (JArr []) = JArr items \<and> from_items items r)"

section \<open>AWS instance catalogue: the fallback fetcher\<close>

text \<open>
  A \<^verbatim>\<open>DataFrame\<close> is its number of rows and its columns in order, each a label
  with one cell for every row; the cell \<open>None\<close> is a missing value (\<^verbatim>\<open>NaN\<close>).
\<close>

record table =
  nrows :: nat
  columns :: "(string \<times> json option list) list"

definition empty_frame :: table where
  "empty_frame = \<lparr>nrows = 0, columns = []\<rparr>"

text \<open>The labels of the frame built from a list of dicts: every key, in the order of
  its first appearance.\<close>

definition fast_unique :: "string list list \<Rightarrow> string list" where
  "fast_unique keys = fold (\<lambda>k seen. if k \<in> set seen then seen else seen @ [k]) (concat keys) []"

text \<open>
  The frame pandas builds from a list of dicts whose values are all strings: one
  row for every dict, one column for every key, the strings as they are, and a
  missing value where a dict lacks the key. A column with a number, a boolean or
  \<^verbatim>\<open>None\<close> in it may be converted by pandas (an integer beside a missing value
  becomes a float, \<^verbatim>\<open>None\<close> among numbers becomes \<^verbatim>\<open>NaN\<close>); such frames are not
  described here.
\<close>

definition frame_of_records :: "(string \<times> string) list list \<Rightarrow> table" where
  "frame_of_records recs =
     \<lparr> nrows = length recs,
       columns = map (\<lambda>c. (c, map (\<lambda>r. map_option JStr (map_of r c)) recs))
                   (fast_unique (map (map fst) recs)) \<rparr>"

text \<open>A dict whose values are all strings, and a list of such dicts.\<close>

fun as_text_record :: "(string \<times> json) list \<Rightarrow> (string \<times> string) list option" where
  "as_text_record [] = Some []"
| "as_text_record ((k, JStr v) # kvs) =
     (case as_text_record kvs of None \<Rightarrow> None | Some r \<Rightarrow> Some ((k, v) # r))"
| "as_text_record (kv # kvs) = None"

fun as_text_records :: "json list \<Rightarrow> (string \<times> string) list list option" where
  "as_text_records [] = Some []"
| "as_text_records (JObj d # xs) =
     (case as_text_record d of
        None \<Rightarrow> None
      | Some r \<Rightarrow> (case as_text_records xs of None \<Rightarrow> None | Some rs \<Rightarrow> Some (r # rs)))"
| "as_text_records (x # xs) = None"


text \<open>
  \<^verbatim>\<open>pd.DataFrame(instances)\<close>. The frame of a list of dicts of strings is the one
  above; what pandas makes of any other value (a frame with converted columns, a
  frame with positional labels, an exception) is the parameter \<open>other\<close>.
\<close>

definition DataFrame :: "(json \<Rightarrow> exn + table) \<Rightarrow> json \<Rightarrow> exn + table" where
  "DataFrame other instances =
     (case instances of
        JArr xs \<Rightarrow>
          (case as_text_records xs of
             Some recs \<Rightarrow> Inr (frame_of_records recs)
           | None \<Rightarrow> other instances)
      | _ \<Rightarrow> other instances)"

text \<open>One admissible \<open>other\<close>, for running the model on lists of dicts of strings,
  where the result does not depend on it.\<close>

definition rejects :: "json \<Rightarrow> exn + table" where
  "rejects instances = Inl ValueError"

text \<open>\<^verbatim>\<open>df[name] = cells\<close>: an existing column is replaced where it stands, a new one
  is added at the end.\<close>

definition set_column :: "string \<Rightarrow> json option list \<Rightarrow> table \<Rightarrow> table" where
  "set_column name cells df =
     (if name \<in> set (map fst (columns df))
      then df\<lparr>columns := map (\<lambda>(c, v). if c = name then (c, cells) else (c, v)) (columns df)\<rparr>
      else df\<lparr>columns := columns df @ [(name, cells)]\<rparr>)"

text \<open>\<^verbatim>\<open>df[name].apply(lambda x: _extract_cpu_vendor(x))\<close>: a missing cell reaches the
  classifier as the float \<^verbatim>\<open>nan\<close>.\<close>

definition apply_vendor :: "table \<Rightarrow> string \<Rightarrow> json option list" where
  "apply_vendor df name =
     map (\<lambda>x. Some (JStr (extract_cpu_vendor (case x of None \<Rightarrow> JFloat ''nan'' | Some v \<Rightarrow> v))))
       (case map_of (columns df) name of None \<Rightarrow> [] | Some cells \<Rightarrow> cells)"

text \<open>Lines 137 to 142.\<close>

definition add_cpu_vendor :: "table \<Rightarrow> table" where
  "add_cpu_vendor df =
     (if ''processor'' \<in> set (map fst (columns df))
      then set_column ''CPU Vendor'' (apply_vendor df ''processor'') df
      else if ''Processor'' \<in> set (map fst (columns df))
      then set_column ''CPU Vendor'' (apply_vendor df ''Processor'') df
      else set_column ''CPU Vendor'' (replicate (nrows df) (Some (JStr ''Unknown''))) df)"

text \<open>Lines 127 to 130: the values of a dict, or the body itself.\<close>

definition instances_of :: "json \<Rightarrow> json" where
  "instances_of data = (case data of JObj kvs \<Rightarrow> JArr (map snd kvs) | _ \<Rightarrow> data)"

text \<open>
  The body of the \<^verbatim>\<open>try\<close> (lines 122 to 145) for one URL: an exception, the
  \<^verbatim>\<open>continue\<close> of line 133 (\<open>None\<close>), or the frame that is returned.
\<close>

definition try_url :: "(json \<Rightarrow> exn + table) \<Rightarrow> reply \<Rightarrow> exn + table option" where
  "try_url other r =
     (case get_json r of
        Inl e \<Rightarrow> Inl e
      | Inr data \<Rightarrow>
          (let instances = instances_of data
           in if \<not> truthy instances then Inr None
              else (case DataFrame other instances of
                      Inl e \<Rightarrow> Inl e
                    | Inr df \<Rightarrow> Inr (Some (add_cpu_vendor df)))))"

text \<open>
  The \<^verbatim>\<open>for\<close> loop over the URLs, one outcome of the script for each request; every
  exception is caught and the next URL is tried. \<open>None\<close> is a script that ends before
  the loop does. After the last URL the function returns \<^verbatim>\<open>pd.DataFrame()\<close>.
\<close>

fun fetch_urls :: "(json \<Rightarrow> exn + table) \<Rightarrow> string list \<Rightarrow> reply list \<Rightarrow> table option" where
  "fetch_urls other [] script = Some empty_frame"
| "fetch_urls other (url # urls) [] = None"
| "fetch_urls other (url # urls) (r # script) =
     (case try_url other r of
        Inl e \<Rightarrow> fetch_urls other urls script
      | Inr None \<Rightarrow> fetch_urls other urls script
      | Inr (Some df) \<Rightarrow> Some df)"

definition aws_urls :: "string list" where
  "aws_urls =
     [''https://ec2instances.info/instances.json'',
      ''https://raw.githubusercontent.com/powdahound/ec2instances.info/master/www/instances.json'']"

definition fetch_aws_instances :: "(json \<Rightarrow> exn + table) \<Rightarrow> reply list \<Rightarrow> table option" where
  "fetch_aws_instances other script = fetch_urls other aws_urls script"

text \<open>
  A request that fails (timeout, network error, error status, a body that is not
  JSON) or whose body gives an empty sequence.
\<close>

definition fails_or_empty :: "reply \<Rightarrow> bool" where
  "fails_or_empty r =
     (case r of
        GetTimeout \<Rightarrow> True
      | GetError \<Rightarrow> True
      | Response status body \<Rightarrow>
          raise_for_status status \<or>
          (case body of None \<Rightarrow> True | Some data \<Rightarrow> \<not> truthy (instances_of data)))"




section \<open>Properties of the vendor classifier\<close>

lemma occurs_in_any_case_iff [code]: "occurs_in_any_case w s \<longleftrightarrow> sublist w (lower s)"
proof
  assume "occurs_in_any_case w s"
  then obtain u where "sublist u s" "lower u = w"
    by (auto simp: occurs_in_any_case_def)
  then show "sublist w (lower s)"
    using map_mono_sublist [of u s lower_char] by (simp add: lower_def)
next
  assume "sublist w (lower s)"
  then obtain ps ss where "map lower_char s = ps @ w @ ss"
    by (auto simp: sublist_def lower_def)
  then obtain a r where r: "s = a @ r" "map lower_char r = w @ ss"
    by (metis map_eq_append_conv)
  then obtain b c where "r = b @ c" "map lower_char b = w"
    by (metis map_eq_append_conv)
  with r have "s = a @ b @ c" "map lower_char b = w"
    by simp_all
  then show "occurs_in_any_case w s"
    by (auto simp: occurs_in_any_case_def lower_def)
qed

text \<open>
  Claim C3: an input whose text has \<^verbatim>\<open>amd\<close> in any letter case is classified AMD,
  whatever else it has; without \<^verbatim>\<open>amd\<close>, \<^verbatim>\<open>intel\<close> gives Intel; without both,
  \<^verbatim>\<open>arm\<close> or \<^verbatim>\<open>ampere\<close> gives ARM; without any of the four the result is Unknown.
\<close>

theorem vendor_precedence:
  "(occurs_in_any_case ''amd'' (py_str x) \<longrightarrow> extract_cpu_vendor x = ''AMD'') \<and>
   (\<not> occurs_in_any_case ''amd'' (py_str x) \<and> occurs_in_any_case ''intel'' (py_str x)
      \<longrightarrow> extract_cpu_vendor x = ''Intel'') \<and>
   (\<not> occurs_in_any_case ''amd'' (py_str x) \<and> \<not> occurs_in_any_case ''intel'' (py_str x) \<and>
    (occurs_in_any_case ''arm'' (py_str x) \<or> occurs_in_any_case ''ampere'' (py_str x))
      \<longrightarrow> extract_cpu_vendor x = ''ARM'') \<and>
   (\<not> occurs_in_any_case ''amd'' (py_str x) \<and> \<not> occurs_in_any_case ''intel'' (py_str x) \<and>
    \<not> occurs_in_any_case ''arm'' (py_str x) \<and> \<not> occurs_in_any_case ''ampere'' (py_str x)
      \<longrightarrow> extract_cpu_vendor x = ''Unknown'')"
  by (simp add: occurs_in_any_case_iff extract_cpu_vendor_def Let_def)

theorem vendor_precedence_witness:
  "(occurs_in_any_case ''amd'' (py_str (JStr ''Intel / AmD / ARM Ampere''))
      \<and> extract_cpu_vendor (JStr ''Intel / AmD / ARM Ampere'') = ''AMD'') \<and>
   (\<not> occurs_in_any_case ''amd'' (py_str (JStr ''ARM or INTEL'')) \<and>
    occurs_in_any_case ''intel'' (py_str (JStr ''ARM or INTEL''))
      \<and> extract_cpu_vendor (JStr ''ARM or INTEL'') = ''Intel'') \<and>
   (\<not> occurs_in_any_case ''amd'' (py_str (JStr ''Ampere Altra'')) \<and>
    \<not> occurs_in_any_case ''intel'' (py_str (JStr ''Ampere Altra'')) \<and>
    (occurs_in_any_case ''arm'' (py_str (JStr ''Ampere Altra'')) \<or>
     occurs_in_any_case ''ampere'' (py_str (JStr ''Ampere Altra'')))
      \<and> extract_cpu_vendor (JStr ''Ampere Altra'') = ''ARM'') \<and>
   (\<not> occurs_in_any_case ''amd'' (py_str (JStr ''Apple M2'')) \<and>
    \<not> occurs_in_any_case ''intel'' (py_str (JStr ''Apple M2'')) \<and>
    \<not> occurs_in_any_case ''arm'' (py_str (JStr ''Apple M2'')) \<and>
    \<not> occurs_in_any_case ''ampere'' (py_str (JStr ''Apple M2''))
      \<and> extract_cpu_vendor (JStr ''Apple M2'') = ''Unknown'')"
proof -
  have a: "occurs_in_any_case ''amd'' (py_str (JStr ''Intel / AmD / ARM Ampere''))"
    by code_simp
  have b: "\<not> occurs_in_any_case ''amd'' (py_str (JStr ''ARM or INTEL'')) \<and>
    occurs_in_any_case ''intel'' (py_str (JStr ''ARM or INTEL''))"
    by code_simp
  have c: "\<not> occurs_in_any_case ''amd'' (py_str (JStr ''Ampere Altra'')) \<and>
    \<not> occurs_in_any_case ''intel'' (py_str (JStr ''Ampere Altra'')) \<and>
    (occurs_in_any_case ''arm'' (py_str (JStr ''Ampere Altra'')) \<or>
     occurs_in_any_case ''ampere'' (py_str (JStr ''Ampere Altra'')))"
    by code_simp
  have d: "\<not> occurs_in_any_case ''amd'' (py_str (JStr ''Apple M2'')) \<and>
    \<not> occurs_in_any_case ''intel'' (py_str (JStr ''Apple M2'')) \<and>
    \<not> occurs_in_any_case ''arm'' (py_str (JStr ''Apple M2'')) \<and>
    \<not> occurs_in_any_case ''ampere'' (py_str (JStr ''Apple M2''))"
    by code_simp
  have r1: "extract_cpu_vendor (JStr ''Intel / AmD / ARM Ampere'') = ''AMD''"
    using vendor_precedence [of "JStr ''Intel / AmD / ARM Ampere''", THEN conjunct1] a
    by (rule mp)
  have r2: "extract_cpu_vendor (JStr ''ARM or INTEL'') = ''Intel''"
    using vendor_precedence [of "JStr ''ARM or INTEL''", THEN conjunct2, THEN conjunct1] b
    by (rule mp)
  have r3: "extract_cpu_vendor (JStr ''Ampere Altra'') = ''ARM''"
    using vendor_precedence [of "JStr ''Ampere Altra''", THEN conjunct2, THEN conjunct2, THEN conjunct1] c
    by (rule mp)
  have r4: "extract_cpu_vendor (JStr ''Apple M2'') = ''Unknown''"
    using vendor_precedence [of "JStr ''Apple M2''", THEN conjunct2, THEN conjunct2, THEN conjunct2] d
    by (rule mp)
  from a b c d r1 r2 r3 r4 show ?thesis
    by (intro conjI) (elim conjE, assumption)+
qed

subsection \<open>Inputs that are not strings\<close>

lemma t_then_r_append: "t_then_r a \<Longrightarrow> t_then_r b \<Longrightarrow> t_then_r (a @ b)"
  by (induction a) (auto split: list.splits)

lemma t_then_r_suffix: "t_then_r (a @ b) \<Longrightarrow> t_then_r b"
  by (induction a) auto

lemma t_then_r_no_T: "CHR ''T'' \<notin> set s \<Longrightarrow> t_then_r s"
  by (induction s) auto

lemma tame_append: "tame a \<Longrightarrow> tame b \<Longrightarrow> tame (a @ b)"
  by (simp add: tame_def t_then_r_append)

lemma tame_join: "tame sep \<Longrightarrow> \<forall>p\<in>set ps. tame p \<Longrightarrow> tame (join sep ps)"
proof (induction sep ps rule: join.induct)
  case (1 sep)
  then show ?case by (simp add: tame_def)
next
  case (2 sep p)
  then show ?case by simp
next
  case (3 sep p q ps)
  then show ?case by (simp add: tame_append)
qed

lemma digit_chars: "\<forall>d\<in>set [0..<10]. digit_char d \<in> set ''0123456789''"
  by code_simp

lemma digit_char_plain:
  assumes "d < 10"
  shows "digit_char d \<in> set ''0123456789''"
proof -
  from assms have "d \<in> set [0..<10]"
    by simp
  with digit_chars show ?thesis
    by (rule bspec)
qed

lemma digits_set: "set (digits n) \<subseteq> set ''0123456789''"
proof (induction n rule: digits.induct)
  case (1 n)
  show ?case
  proof (cases "n < 10")
    case True
    with digit_char_plain [of n] show ?thesis
      by (subst digits.simps) simp
  next
    case False
    have "digit_char (n mod 10) \<in> set ''0123456789''"
      by (rule digit_char_plain) simp
    with False "1.IH" show ?thesis
      by (subst digits.simps) simp
  qed
qed

lemma set_Cons_subset: "c \<in> A \<Longrightarrow> set cs \<subseteq> A \<Longrightarrow> set (c # cs) \<subseteq> A"
  by simp

lemma str_int_set: "set (str_int i) \<subseteq> set ''-0123456789''"
proof -
  have d: "set (digits n) \<subseteq> set ''-0123456789''" for n
  proof -
    have "set ''0123456789'' \<subseteq> set ''-0123456789''"
      by code_simp
    with digits_set [of n] show ?thesis
      by (rule subset_trans)
  qed
  show ?thesis
  proof (cases "i < 0")
    case True
    have "CHR ''-'' \<in> set ''-0123456789''"
      by code_simp
    then have "set (CHR ''-'' # digits (nat (- i))) \<subseteq> set ''-0123456789''"
      using d by (rule set_Cons_subset)
    with True show ?thesis
      by (simp only: str_int_def if_True)
  next
    case False
    with d [of "nat i"] show ?thesis
      by (simp only: str_int_def if_False)
  qed
qed

lemma tame_plain: "set s \<subseteq> set plain_chars \<Longrightarrow> CHR ''T'' \<notin> set s \<Longrightarrow> tame s"
  by (simp add: tame_def t_then_r_no_T)

lemma tame_str_int: "tame (str_int i)"
proof (rule tame_plain)
  have "set ''-0123456789'' \<subseteq> set plain_chars"
    by code_simp
  with str_int_set [of i] show "set (str_int i) \<subseteq> set plain_chars"
    by (rule subset_trans)
  have "CHR ''T'' \<notin> set ''-0123456789''"
    by code_simp
  with str_int_set [of i] show "CHR ''T'' \<notin> set (str_int i)"
    by blast
qed

lemma tame_float:
  assumes "float_repr_ok f"
  shows "tame f"
proof (rule tame_plain)
  from assms have f: "set f \<subseteq> set ''0123456789.e+-infa''"
    by (simp only: float_repr_ok_def)
  have "set ''0123456789.e+-infa'' \<subseteq> set plain_chars"
    by code_simp
  with f show "set f \<subseteq> set plain_chars"
    by (rule subset_trans)
  have "CHR ''T'' \<notin> set ''0123456789.e+-infa''"
    by code_simp
  with f show "CHR ''T'' \<notin> set f"
    by blast
qed

lemma tame_None: "tame (py_repr JNull)"
  by code_simp

lemma tame_True: "tame (py_repr (JBool True))"
  by code_simp

lemma tame_False: "tame (py_repr (JBool False))"
  by code_simp

lemma tame_empty_dict: "tame (py_repr (JObj []))"
  by code_simp

lemma tame_brackets: "tame '', ''" "tame ''[''" "tame '']''"
  by code_simp+

lemma tame_repr: "no_text x \<Longrightarrow> tame (py_repr x)"
proof (induction x)
  case JNull
  show ?case by (rule tame_None)
next
  case (JBool b)
  show ?case by (cases b) (simp_all only: tame_True tame_False)
next
  case (JInt i)
  show ?case by (simp only: py_repr.simps tame_str_int)
next
  case (JFloat f)
  then show ?case by (simp only: py_repr.simps no_text.simps tame_float)
next
  case (JStr s)
  then show ?case by (simp only: no_text.simps)
next
  case (JArr xs)
  from JArr.prems have "\<forall>x\<in>set xs. no_text x"
    by (simp only: no_text.simps list_all_iff)
  with JArr.IH have "\<forall>p\<in>set (map py_repr xs). tame p"
    by (simp only: set_map) blast
  with tame_brackets(1) have "tame (join '', '' (map py_repr xs))"
    by (rule tame_join)
  with tame_brackets(2,3) have "tame (''['' @ join '', '' (map py_repr xs) @ '']'')"
    by (intro tame_append)
  then show ?case by (simp only: py_repr.simps)
next
  case (JObj kvs)
  then have "kvs = []" by (simp only: no_text.simps)
  then show ?case by (simp only: tame_empty_dict)
qed

lemma plain_lower_m: "\<forall>c\<in>set plain_chars. lower_char c \<noteq> CHR ''m''"
  by code_simp

lemma plain_lower_t: "\<forall>c\<in>set plain_chars. lower_char c = CHR ''t'' \<longrightarrow> c = CHR ''T''"
  by code_simp

lemma lower_r: "lower_char CHR ''r'' = CHR ''r''"
  by code_simp

lemma tame_no_m: "tame s \<Longrightarrow> CHR ''m'' \<notin> set (lower s)"
  using plain_lower_m by (auto simp: tame_def lower_def)

lemma sublist_map_third_fourth:
  assumes "sublist [x1, x2, x3, x4, x5] (map f s)"
  shows "\<exists>a c3 c4 b. s = a @ c3 # c4 # b \<and> f c3 = x3 \<and> f c4 = x4"
proof -
  from assms obtain ps ss where "map f s = ps @ [x1, x2, x3, x4, x5] @ ss"
    unfolding sublist_def by blast
  then obtain a r where s: "s = a @ r" and "map f r = [x1, x2, x3, x4, x5] @ ss"
    by (metis map_eq_append_conv)
  then have "map f r = x1 # x2 # x3 # x4 # x5 # ss"
    by simp
  then obtain c1 c2 c3 c4 b where r: "r = c1 # c2 # c3 # c4 # b" and "f c3 = x3" and "f c4 = x4"
    by (auto simp: map_eq_Cons_conv)
  with s have "s = (a @ [c1, c2]) @ c3 # c4 # b \<and> f c3 = x3 \<and> f c4 = x4"
    by simp
  then show ?thesis by blast
qed

lemma tame_no_intel:
  assumes "tame s"
  shows "\<not> sublist ''intel'' (lower s)"
proof
  assume "sublist ''intel'' (lower s)"
  then have "\<exists>a c3 c4 b. s = a @ c3 # c4 # b \<and> lower_char c3 = CHR ''t'' \<and> lower_char c4 = CHR ''e''"
    unfolding lower_def by (rule sublist_map_third_fourth)
  then obtain a c3 c4 b where split: "s = a @ c3 # c4 # b"
    and c3: "lower_char c3 = CHR ''t''" and c4: "lower_char c4 = CHR ''e''"
    by blast
  from assms have "set s \<subseteq> set plain_chars" and "t_then_r s"
    unfolding tame_def by blast+
  then have sub: "set (a @ c3 # c4 # b) \<subseteq> set plain_chars" and "t_then_r (a @ c3 # c4 # b)"
    unfolding split by this+
  then have t: "t_then_r (c3 # c4 # b)"
    by (elim t_then_r_suffix)
  from sub have "c3 \<in> set plain_chars"
    by simp
  with c3 plain_lower_t have "c3 = CHR ''T''"
    by blast
  with t have "c4 = CHR ''r''"
    by simp
  with c4 lower_r show False
    by simp
qed

text \<open>
  Claim C2, as the code has it: an input without any string inside (\<^verbatim>\<open>None\<close>, a
  boolean, a number, the empty dict, a list of such values) on which \<^verbatim>\<open>str\<close> returns
  (no integer of more than 4300 digits, nesting within the room of the interpreter)
  is classified Unknown. The text of such a value has no \<open>m\<close>, and a \<open>t\<close> only
  before an \<open>r\<close>, so none of the four names occurs in it.
\<close>

theorem no_text_unknown:
  assumes "no_text x"
    and "str_returns room x"
  shows "extract_cpu_vendor x = ''Unknown''"
proof -
  from assms(1) have "py_str x = py_repr x"
    by (cases x) (simp_all add: py_str_def)
  with assms(1) have t: "tame (py_str x)"
    by (simp add: tame_repr)
  have m: "\<not> sublist w (lower (py_str x))" if "CHR ''m'' \<in> set w" for w
    using tame_no_m [OF t] set_mono_sublist [of w "lower (py_str x)"] that by auto
  have "\<not> sublist ''amd'' (lower (py_str x))" "\<not> sublist ''arm'' (lower (py_str x))"
    "\<not> sublist ''ampere'' (lower (py_str x))"
    by (rule m, simp)+
  with tame_no_intel [OF t] show ?thesis
    by (simp add: extract_cpu_vendor_def Let_def)
qed

theorem no_text_unknown_witness:
  "no_text (JArr [JNull, JBool True, JInt (- 12), JFloat ''nan'', JArr [], JObj []]) \<and>
   str_returns 1000 (JArr [JNull, JBool True, JInt (- 12), JFloat ''nan'', JArr [], JObj []]) \<and>
   extract_cpu_vendor (JArr [JNull, JBool True, JInt (- 12), JFloat ''nan'', JArr [], JObj []]) =
     ''Unknown''"
proof -
  have a: "no_text (JArr [JNull, JBool True, JInt (- 12), JFloat ''nan'', JArr [], JObj []])"
    by (simp add: float_repr_ok_def)
  have b: "str_returns 1000
             (JArr [JNull, JBool True, JInt (- 12), JFloat ''nan'', JArr [], JObj []])"
    by code_simp
  from a b no_text_unknown [OF a b] show ?thesis
    by (intro conjI)
qed

text \<open>
  Claim C2 as stated fails: a list or a dict is classified by its text, which shows
  the strings it holds. The list \<^verbatim>\<open>["AMD EPYC 7763"]\<close> prints as
  \<^verbatim>\<open>['AMD EPYC 7763']\<close> and is classified AMD.
\<close>

theorem list_with_text_classified:
  "extract_cpu_vendor (JArr [JStr ''AMD EPYC 7763'']) = ''AMD'' \<and>
   extract_cpu_vendor (JArr [JStr ''AMD EPYC 7763'']) \<noteq> ''Unknown''"
  by code_simp

section \<open>Properties of the paginated fetcher\<close>

subsection \<open>The loop, piece by piece\<close>

lemma fetch_loop_Awaits_cond:
  "fetch_loop limit pre st0 = Awaits st \<Longrightarrow>
     truthy (next_page st) \<and> int (length (all_items st)) < limit"
  by (induction pre arbitrary: st0)
     (auto simp: Let_def split: if_splits sum.splits prod.splits)

lemma fetch_loop_append:
  "fetch_loop limit pre st0 = Awaits st \<Longrightarrow>
     fetch_loop limit (pre @ script) st0 = fetch_loop limit script st"
proof (induction pre arbitrary: st0)
  case Nil
  then have "st0 = st" and "truthy (next_page st) \<and> int (length (all_items st)) < limit"
    by (auto split: if_splits)
  then show ?case by simp
next
  case (Cons r pre)
  then show ?case
    by (auto simp: Let_def split: if_splits sum.splits prod.splits)
qed

lemma fetch_loop_timeouts:
  "truthy (next_page st) \<Longrightarrow> int (length (all_items st)) < limit \<Longrightarrow>
     fetch_loop limit (replicate k GetTimeout @ script) st =
     fetch_loop limit script (st\<lparr>requests := requests st @ replicate k (next_page st)\<rparr>)"
proof (induction k arbitrary: st)
  case 0
  then show ?case by simp
next
  case (Suc k)
  have t: "try_page limit GetTimeout s = Inl TimeoutExc" for s
    by (simp add: try_page_def get_json_def)
  let ?st1 = "st\<lparr>requests := requests st @ [next_page st]\<rparr>"
  have "fetch_loop limit (replicate (Suc k) GetTimeout @ script) st =
        fetch_loop limit (replicate k GetTimeout @ script) ?st1"
    using Suc.prems by (simp add: t)
  also have "\<dots> = fetch_loop limit script
                (?st1\<lparr>requests := requests ?st1 @ replicate k (next_page ?st1)\<rparr>)"
    using Suc.prems by (intro Suc.IH) simp_all
  finally show ?case
    by (simp add: replicate_app_Cons_same)
qed

lemma from_items_Cons: "from_items items r \<Longrightarrow> from_items (item # items) r"
  unfolding from_items_def by auto

lemma from_items_project:
  "dict_get d ''armSkuName'' (JStr []) = JStr s \<Longrightarrow> s \<noteq> [] \<Longrightarrow>
     from_items (JObj d # items) (project_item d s)"
  unfolding from_items_def by (auto simp: project_item_def)

lemma filter_items_source:
  "filter_items limit collected items acc = Inr out \<Longrightarrow>
     \<forall>r\<in>set out. r \<in> set acc \<or> from_items items r"
proof (induction items arbitrary: acc)
  case Nil
  then show ?case by simp
next
  case (Cons item items)
  show ?case
  proof (cases "int (length collected) \<ge> limit")
    case True
    with Cons.prems show ?thesis by simp
  next
    case False
    note lim = this
    have skip: ?thesis if "filter_items limit collected items acc = Inr out"
      using Cons.IH [OF that] from_items_Cons by blast
    show ?thesis
    proof (cases item)
      case (JObj d)
      let ?sku = "dict_get d ''armSkuName'' (JStr [])"
      show ?thesis
      proof (cases "truthy ?sku")
        case False
        with lim JObj Cons.prems show ?thesis by (intro skip) simp
      next
        case True
        show ?thesis
        proof (cases ?sku)
          case (JStr s)
          with True have s: "s \<noteq> []" by simp
          show ?thesis
          proof (cases "list_ex (\<lambda>p. prefix p s) series_filter")
            case True
            with lim JObj JStr s Cons.prems have
              "filter_items limit collected items (acc @ [project_item d s]) = Inr out"
              by simp
            then have "\<forall>r\<in>set out. r \<in> set (acc @ [project_item d s]) \<or> from_items items r"
              by (rule Cons.IH)
            moreover have "from_items (item # items) (project_item d s)"
              unfolding JObj using JStr s by (rule from_items_project)
            ultimately show ?thesis
              using from_items_Cons by auto
          next
            case False
            with lim JObj JStr s Cons.prems show ?thesis by (intro skip) simp
          qed
        qed (use lim JObj True Cons.prems in simp_all)
      qed
    qed (use lim Cons.prems in simp_all)
  qed
qed

lemma from_items_has_dict: "from_items items r \<Longrightarrow> \<exists>item. JObj item \<in> set items"
  unfolding from_items_def by blast

lemma process_page_source:
  assumes "process_page limit collected data = Inr (filtered, next)"
    and "r \<in> set filtered"
  shows "\<exists>d items. data = JObj d \<and> dict_get d ''Items'' (JArr []) = JArr items \<and>
           from_items items r"
proof -
  from assms(1) obtain d its where data: "data = JObj d"
    and its: "iterate (dict_get d ''Items'' (JArr [])) = Inr its"
    and f: "filter_items limit collected its [] = Inr filtered"
    by (auto simp: process_page_def split: json.splits sum.splits)
  from filter_items_source [OF f] assms(2) have r: "from_items its r"
    by auto
  then obtain item where item: "JObj item \<in> set its"
    using from_items_has_dict by blast
  have "dict_get d ''Items'' (JArr []) = JArr its"
  proof (cases "dict_get d ''Items'' (JArr [])")
    case (JArr xs)
    with its show ?thesis by (simp add: iterate_def)
  next
    case (JObj kvs)
    with its item show ?thesis by (auto simp: iterate_def)
  next
    case (JStr t)
    with its item show ?thesis by (auto simp: iterate_def)
  qed (use its in \<open>simp_all add: iterate_def\<close>)
  with data r show ?thesis by blast
qed

lemma try_page_source:
  assumes "try_page limit p st = Inr (st2, stop)"
    and "r \<in> set (all_items st2)"
  shows "r \<in> set (all_items st) \<or> from_page p r"
proof -
  from assms(1) obtain data where d: "get_json p = Inr data"
    by (cases "get_json p") (simp_all add: try_page_def)
  with assms(1) obtain q where "process_page limit (all_items st) data = Inr q"
    by (cases "process_page limit (all_items st) data") (simp_all add: try_page_def)
  then obtain filtered nxt where
    pp: "process_page limit (all_items st) data = Inr (filtered, nxt)"
    by (cases q) simp
  with assms(1) d have st2: "all_items st2 = all_items st @ filtered"
    by (auto simp: try_page_def Let_def)
  show ?thesis
  proof (cases "r \<in> set (all_items st)")
    case True
    then show ?thesis ..
  next
    case False
    with assms(2) st2 have "r \<in> set filtered" by simp
    from process_page_source [OF pp this] d have "from_page p r"
      unfolding from_page_def by auto
    then show ?thesis ..
  qed
qed

lemma fetch_loop_source:
  "fetch_loop limit script st = Returns st' \<Longrightarrow> r \<in> set (all_items st') \<Longrightarrow>
     r \<in> set (all_items st) \<or> (\<exists>p. p \<in> set script \<and> from_page p r)"
proof (induction script arbitrary: st)
  case Nil
  then show ?case by (auto split: if_splits)
next
  case (Cons p script)
  show ?case
  proof (cases "truthy (next_page st) \<and> int (length (all_items st)) < limit")
    case False
    with Cons.prems show ?thesis by auto
  next
    case True
    let ?st1 = "st\<lparr>requests := requests st @ [next_page st]\<rparr>"
    show ?thesis
    proof (cases "try_page limit p ?st1")
      case (Inl e)
      with True Cons.prems Cons.IH [of ?st1] show ?thesis
        by (auto simp: Let_def split: if_splits)
    next
      case (Inr q)
      obtain st2 stop where q: "q = (st2, stop)" by (cases q)
      have step: "x \<in> set (all_items st) \<or> from_page p x" if "x \<in> set (all_items st2)" for x
        using try_page_source [OF Inr [unfolded q] that] by simp
      show ?thesis
      proof (cases stop)
        case True
        with \<open>truthy (next_page st) \<and> int (length (all_items st)) < limit\<close> Inr q Cons.prems(1)
        have "st' = st2" by (simp add: Let_def)
        with Cons.prems(2) step show ?thesis by auto
      next
        case False
        with \<open>truthy (next_page st) \<and> int (length (all_items st)) < limit\<close> Inr q Cons.prems(1)
        have "fetch_loop limit script st2 = Returns st'" by (simp add: Let_def)
        from Cons.IH [OF this Cons.prems(2)] step show ?thesis by auto
      qed
    qed
  qed
qed

subsection \<open>The record limit\<close>

text \<open>
  Claim C1: the returned records are at most \<open>limit\<close>. The code does not keep it.
  The test of line 67 reads the length of \<^verbatim>\<open>all_items\<close>, which does not grow while
  the items of a page are filtered (line 85 extends it after the loop), so the
  \<^verbatim>\<open>break\<close> of line 68 is never taken and a page adds all of its matching items.
  With limit 1 and one page of two matching items the function returns both.
\<close>

theorem limit_exceeded_within_page:
  "map_option (map VM_Name)
     (returned (fetch_azure_vm_pricing 1
        [Response 200 (Some (JObj [(''Items'',
           JArr [JObj [(''armSkuName'', JStr ''D2s_v3'')],
                 JObj [(''armSkuName'', JStr ''P3'')]])]))])) =
   Some [''D2s_v3'', ''P3'']"
  by code_simp

text \<open>
  Claim C8: called with limit 0, the function returns no record and has issued no
  request, whatever the script holds: the run returns in its initial state.
\<close>

theorem limit_zero_no_request:
  "fetch_azure_vm_pricing 0 script =
     Returns \<lparr>next_page = JStr base_url, all_items = [], requests = []\<rparr>"
  by (cases script) (simp_all add: fetch_azure_vm_pricing_def)

subsection \<open>Errors and timeouts\<close>

text \<open>
  Claim C4: when the script \<open>pre\<close> leaves the loop running in the state \<open>st\<close>, and
  the next request raises an exception other than a timeout (in \<^verbatim>\<open>session.get\<close>, in
  \<^verbatim>\<open>raise_for_status\<close>, in \<^verbatim>\<open>response.json\<close>, or while the page is processed), the
  function returns at once: the records are those of \<open>st\<close>, with nothing from the
  failed page, and the outcomes left in the script are not asked for.
\<close>

theorem error_returns_partial:
  assumes "fetch_loop limit pre \<lparr>next_page = JStr base_url, all_items = [], requests = []\<rparr> = Awaits st"
    and "get_json r = Inl e \<or>
         (\<exists>data. get_json r = Inr data \<and> process_page limit (all_items st) data = Inl e)"
    and "e \<noteq> TimeoutExc"
  shows "fetch_azure_vm_pricing limit (pre @ r # rest) =
           Returns (st\<lparr>requests := requests st @ [next_page st]\<rparr>)"
proof -
  have c: "truthy (next_page st) \<and> int (length (all_items st)) < limit"
    using assms(1) by (rule fetch_loop_Awaits_cond)
  have "try_page limit r (st\<lparr>requests := requests st @ [next_page st]\<rparr>) = Inl e"
    using assms(2) by (auto simp: try_page_def)
  then have "fetch_loop limit (r # rest) st = Returns (st\<lparr>requests := requests st @ [next_page st]\<rparr>)"
    using c assms(3) by simp
  then show ?thesis
    using fetch_loop_append [OF assms(1)] by (simp add: fetch_azure_vm_pricing_def)
qed

theorem error_returns_partial_witness:
  "fetch_loop 10
     [Response 200 (Some (JObj [(''Items'', JArr [JObj [(''armSkuName'', JStr ''D2'')]]),
                                (''NextPageLink'', JStr ''u2'')]))]
     \<lparr>next_page = JStr base_url, all_items = [], requests = []\<rparr> =
   Awaits \<lparr>next_page = JStr ''u2'',
           all_items = [project_item [(''armSkuName'', JStr ''D2'')] ''D2''],
           requests = [JStr base_url]\<rparr> \<and>
   (get_json GetError = Inl RequestExc \<or>
    (\<exists>data. get_json GetError = Inr data \<and>
       process_page 10 [project_item [(''armSkuName'', JStr ''D2'')] ''D2''] data = Inl RequestExc)) \<and>
   RequestExc \<noteq> TimeoutExc \<and>
   fetch_azure_vm_pricing 10
     ([Response 200 (Some (JObj [(''Items'', JArr [JObj [(''armSkuName'', JStr ''D2'')]]),
                                 (''NextPageLink'', JStr ''u2'')]))] @
      GetError #
      [Response 200 (Some (JObj [(''Items'', JArr [JObj [(''armSkuName'', JStr ''F4'')]])]))]) =
   Returns \<lparr>next_page = JStr ''u2'',
            all_items = [project_item [(''armSkuName'', JStr ''D2'')] ''D2''],
            requests = [JStr base_url, JStr ''u2'']\<rparr>"
proof -
  let ?pre = "[Response 200 (Some (JObj [(''Items'', JArr [JObj [(''armSkuName'', JStr ''D2'')]]),
                                (''NextPageLink'', JStr ''u2'')]))]"
  let ?st = "\<lparr>next_page = JStr ''u2'',
           all_items = [project_item [(''armSkuName'', JStr ''D2'')] ''D2''],
           requests = [JStr base_url]\<rparr>"
  have a: "fetch_loop 10 ?pre \<lparr>next_page = JStr base_url, all_items = [], requests = []\<rparr> = Awaits ?st"
    by code_simp
  have b: "get_json GetError = Inl RequestExc \<or>
    (\<exists>data. get_json GetError = Inr data \<and> process_page 10 (all_items ?st) data = Inl RequestExc)"
    by (simp add: get_json_def)
  have c: "RequestExc \<noteq> TimeoutExc"
    by simp
  show ?thesis
    using a b c error_returns_partial [OF a b c] by simp
qed

text \<open>
  Claim C5: when the script \<open>pre\<close> leaves the loop running in the state \<open>st\<close>, and
  the next \<open>k\<close> requests time out before one succeeds, all \<open>k + 1\<close> requests go to
  the cursor of \<open>st\<close>, the records of the successful page are appended once to those
  of \<open>st\<close>, and the run goes on from there as it does without the timeouts.
\<close>

theorem timeouts_retry_same_cursor:
  assumes "fetch_loop limit pre \<lparr>next_page = JStr base_url, all_items = [], requests = []\<rparr> = Awaits st"
    and "get_json r = Inr data"
    and "process_page limit (all_items st) data = Inr (filtered, next)"
  shows "fetch_azure_vm_pricing limit (pre @ replicate k GetTimeout @ r # rest) =
           (let st2 = st\<lparr>requests := requests st @ replicate (Suc k) (next_page st),
                        all_items := all_items st @ filtered, next_page := next\<rparr>
            in if \<not> truthy next \<or> int (length (all_items st2)) \<ge> limit
               then Returns st2 else fetch_loop limit rest st2)"
proof -
  have c: "truthy (next_page st)" "int (length (all_items st)) < limit"
    using fetch_loop_Awaits_cond [OF assms(1)] by simp_all
  let ?stk = "st\<lparr>requests := requests st @ replicate k (next_page st)\<rparr>"
  let ?st1 = "?stk\<lparr>requests := requests ?stk @ [next_page ?stk]\<rparr>"
  have "fetch_azure_vm_pricing limit (pre @ replicate k GetTimeout @ r # rest) =
        fetch_loop limit (replicate k GetTimeout @ r # rest) st"
    using fetch_loop_append [OF assms(1)] by (simp add: fetch_azure_vm_pricing_def)
  also have "\<dots> = fetch_loop limit (r # rest) ?stk"
    using c by (rule fetch_loop_timeouts)
  also have "\<dots> = (let st2 = st\<lparr>requests := requests st @ replicate (Suc k) (next_page st),
                        all_items := all_items st @ filtered, next_page := next\<rparr>
            in if \<not> truthy next \<or> int (length (all_items st2)) \<ge> limit
               then Returns st2 else fetch_loop limit rest st2)"
    using c assms(2,3)
    by (simp add: try_page_def Let_def replicate_append_same)
  finally show ?thesis .
qed

theorem timeouts_retry_same_cursor_witness:
  "fetch_loop 10
     [Response 200 (Some (JObj [(''Items'', JArr [JObj [(''armSkuName'', JStr ''D2'')]]),
                                (''NextPageLink'', JStr ''u2'')]))]
     \<lparr>next_page = JStr base_url, all_items = [], requests = []\<rparr> =
   Awaits \<lparr>next_page = JStr ''u2'',
           all_items = [project_item [(''armSkuName'', JStr ''D2'')] ''D2''],
           requests = [JStr base_url]\<rparr> \<and>
   get_json (Response 200 (Some (JObj [(''Items'', JArr [JObj [(''armSkuName'', JStr ''F4'')]])]))) =
     Inr (JObj [(''Items'', JArr [JObj [(''armSkuName'', JStr ''F4'')]])]) \<and>
   process_page 10 [project_item [(''armSkuName'', JStr ''D2'')] ''D2'']
     (JObj [(''Items'', JArr [JObj [(''armSkuName'', JStr ''F4'')]])]) =
     Inr ([project_item [(''armSkuName'', JStr ''F4'')] ''F4''], JNull) \<and>
   fetch_azure_vm_pricing 10
     ([Response 200 (Some (JObj [(''Items'', JArr [JObj [(''armSkuName'', JStr ''D2'')]]),
                                 (''NextPageLink'', JStr ''u2'')]))] @
      replicate 2 GetTimeout @
      Response 200 (Some (JObj [(''Items'', JArr [JObj [(''armSkuName'', JStr ''F4'')]])])) # []) =
   Returns \<lparr>next_page = JNull,
            all_items = [project_item [(''armSkuName'', JStr ''D2'')] ''D2'',
                         project_item [(''armSkuName'', JStr ''F4'')] ''F4''],
            requests = [JStr base_url, JStr ''u2'', JStr ''u2'', JStr ''u2'']\<rparr>"
proof -
  let ?pre = "[Response 200 (Some (JObj [(''Items'', JArr [JObj [(''armSkuName'', JStr ''D2'')]]),
                                (''NextPageLink'', JStr ''u2'')]))]"
  let ?st = "\<lparr>next_page = JStr ''u2'',
           all_items = [project_item [(''armSkuName'', JStr ''D2'')] ''D2''],
           requests = [JStr base_url]\<rparr>"
  let ?data = "JObj [(''Items'', JArr [JObj [(''armSkuName'', JStr ''F4'')]])]"
  have a: "fetch_loop 10 ?pre \<lparr>next_page = JStr base_url, all_items = [], requests = []\<rparr> = Awaits ?st"
    by code_simp
  have b: "get_json (Response 200 (Some ?data)) = Inr ?data"
    by (simp add: get_json_def raise_for_status_def)
  have c: "process_page 10 (all_items ?st) ?data =
             Inr ([project_item [(''armSkuName'', JStr ''F4'')] ''F4''], JNull)"
    by code_simp
  show ?thesis
    using a b c timeouts_retry_same_cursor [OF a b c, of 2 "[]"]
    by (simp add: numeral_2_eq_2)
qed

subsection \<open>The SKU fields of a record\<close>

text \<open>
  Claim C9: every returned record comes from an item of a page that a reply of the
  script carried: its fields \<^verbatim>\<open>VM Name\<close> and \<^verbatim>\<open>Arm SKU\<close> both hold the
  \<^verbatim>\<open>armSkuName\<close> of that item, so they are equal, and the value is not empty.
\<close>

theorem arm_sku_is_vm_name:
  assumes "returned (fetch_azure_vm_pricing limit script) = Some recs"
    and "r \<in> set recs"
  shows "Arm_SKU r = VM_Name r \<and> VM_Name r \<noteq> [] \<and>
         (\<exists>p d items item.
            p \<in> set script \<and> get_json p = Inr (JObj d) \<and>
            dict_get d ''Items'' (JArr []) = JArr items \<and> JObj item \<in> set items \<and>
            dict_get item ''armSkuName'' (JStr []) = JStr (VM_Name r) \<and>
            dict_get item ''armSkuName'' (JStr []) = JStr (Arm_SKU r))"
proof -
  from assms obtain st where
    st: "fetch_loop limit script \<lparr>next_page = JStr base_url, all_items = [], requests = []\<rparr> =
           Returns st"
    and "r \<in> set (all_items st)"
    by (auto simp: returned_def fetch_azure_vm_pricing_def split: run.splits)
  from fetch_loop_source [OF this] obtain p where p: "p \<in> set script" and "from_page p r"
    by auto
  then obtain d items where d: "get_json p = Inr (JObj d)"
    and items: "dict_get d ''Items'' (JArr []) = JArr items" and "from_items items r"
    unfolding from_page_def by blast
  then obtain item where item: "JObj item \<in> set items"
    and sku: "dict_get item ''armSkuName'' (JStr []) = JStr (VM_Name r)"
    and eq: "Arm_SKU r = VM_Name r" and ne: "VM_Name r \<noteq> []"
    unfolding from_items_def by blast
  from sku eq have "dict_get item ''armSkuName'' (JStr []) = JStr (Arm_SKU r)"
    by simp
  with p d items item sku eq ne show ?thesis
    by blast
qed

theorem arm_sku_is_vm_name_witness:
  "returned (fetch_azure_vm_pricing 5
      [Response 200 (Some (JObj [(''Items'', JArr [JObj [(''armSkuName'', JStr ''B1s'')]])]))]) =
     Some [project_item [(''armSkuName'', JStr ''B1s'')] ''B1s''] \<and>
   project_item [(''armSkuName'', JStr ''B1s'')] ''B1s'' \<in>
     set [project_item [(''armSkuName'', JStr ''B1s'')] ''B1s''] \<and>
   VM_Name (project_item [(''armSkuName'', JStr ''B1s'')] ''B1s'') = ''B1s'' \<and>
   Arm_SKU (project_item [(''armSkuName'', JStr ''B1s'')] ''B1s'') =
     VM_Name (project_item [(''armSkuName'', JStr ''B1s'')] ''B1s'') \<and>
   VM_Name (project_item [(''armSkuName'', JStr ''B1s'')] ''B1s'') \<noteq> [] \<and>
   (\<exists>p d items item.
      p \<in> set [Response 200 (Some (JObj [(''Items'', JArr [JObj [(''armSkuName'', JStr ''B1s'')]])]))] \<and>
      get_json p = Inr (JObj d) \<and>
      dict_get d ''Items'' (JArr []) = JArr items \<and> JObj item \<in> set items \<and>
      dict_get item ''armSkuName'' (JStr []) =
        JStr (VM_Name (project_item [(''armSkuName'', JStr ''B1s'')] ''B1s'')) \<and>
      dict_get item ''armSkuName'' (JStr []) =
        JStr (Arm_SKU (project_item [(''armSkuName'', JStr ''B1s'')] ''B1s'')))"
proof -
  have a: "returned (fetch_azure_vm_pricing 5
      [Response 200 (Some (JObj [(''Items'', JArr [JObj [(''armSkuName'', JStr ''B1s'')]])]))]) =
     Some [project_item [(''armSkuName'', JStr ''B1s'')] ''B1s'']"
    by code_simp
  have b: "project_item [(''armSkuName'', JStr ''B1s'')] ''B1s'' \<in>
     set [project_item [(''armSkuName'', JStr ''B1s'')] ''B1s'']"
    by simp
  have c: "VM_Name (project_item [(''armSkuName'', JStr ''B1s'')] ''B1s'') = ''B1s''"
    by (simp add: project_item_def)
  note d = arm_sku_is_vm_name [OF a b]
  from a b c d show ?thesis
    by (intro conjI) (elim conjE, assumption)+
qed

section \<open>Properties of the fallback fetcher\<close>

lemma fetch_urls_cong_reply:
  "try_url other r1 = try_url other r2 \<Longrightarrow>
     fetch_urls other urls (pre @ r1 # rest) = fetch_urls other urls (pre @ r2 # rest)"
proof (induction pre arbitrary: urls)
  case Nil
  then show ?case by (cases urls) simp_all
next
  case (Cons p pre)
  show ?case
  proof (cases urls)
    case Nil
    then show ?thesis by simp
  next
    case (Cons url urls')
    with Cons.IH [OF Cons.prems, of urls'] show ?thesis
      by (simp split: sum.splits option.splits)
  qed
qed

text \<open>
  Claim C6: a body that is a keyed object gives the same sequence of instances as
  the array of its values in the same order (a two-entry object gives the two-element
  array), so the attempt and the whole fetch give the same result for both bodies,
  wherever the response stands in the script.
\<close>

theorem keyed_object_same_as_array:
  "instances_of (JObj kvs) = JArr (map snd kvs) \<and>
   instances_of (JArr (map snd kvs)) = JArr (map snd kvs) \<and>
   instances_of (JObj [(a, x), (b, y)]) = JArr [x, y] \<and>
   try_url other (Response status (Some (JObj kvs))) =
     try_url other (Response status (Some (JArr (map snd kvs)))) \<and>
   fetch_urls other urls (pre @ Response status (Some (JObj kvs)) # rest) =
     fetch_urls other urls (pre @ Response status (Some (JArr (map snd kvs))) # rest) \<and>
   fetch_aws_instances other (pre @ Response status (Some (JObj kvs)) # rest) =
     fetch_aws_instances other (pre @ Response status (Some (JArr (map snd kvs))) # rest)"
proof -
  have t: "try_url other (Response status (Some (JObj kvs))) =
     try_url other (Response status (Some (JArr (map snd kvs))))"
    by (simp add: try_url_def get_json_def instances_of_def)
  show ?thesis
    using t fetch_urls_cong_reply [OF t]
    by (simp add: instances_of_def fetch_aws_instances_def)
qed

lemma try_url_fails_or_empty:
  "fails_or_empty r \<Longrightarrow> try_url other r = Inr None \<or> (\<exists>e. try_url other r = Inl e)"
  by (cases r) (auto simp: fails_or_empty_def try_url_def get_json_def Let_def split: option.splits)

text \<open>
  Claim C7: when every request fails or gives an empty sequence, and the script has
  an outcome for every URL, the function returns the empty frame; no exception
  leaves the loop.
\<close>

theorem all_sources_fail:
  "list_all fails_or_empty script \<Longrightarrow> length urls \<le> length script \<Longrightarrow>
     fetch_urls other urls script = Some empty_frame"
proof (induction urls arbitrary: script)
  case Nil
  then show ?case by simp
next
  case (Cons url urls)
  then obtain r rest where script: "script = r # rest"
    by (cases script) auto
  with Cons.prems have r: "fails_or_empty r" and rest: "list_all fails_or_empty rest"
    and len: "length urls \<le> length rest"
    by simp_all
  have "fetch_urls other urls rest = Some empty_frame"
    using rest len by (rule Cons.IH)
  with try_url_fails_or_empty [OF r, of other] script show ?case
    by auto
qed

theorem all_sources_fail_witness:
  "list_all fails_or_empty [Response 503 None, Response 200 (Some (JObj []))] \<and>
   length aws_urls \<le> length [Response 503 None, Response 200 (Some (JObj []))] \<and>
   fetch_aws_instances rejects [Response 503 None, Response 200 (Some (JObj []))] = Some empty_frame"
proof -
  have a: "list_all fails_or_empty [Response 503 None, Response 200 (Some (JObj []))]"
    by (simp add: fails_or_empty_def raise_for_status_def instances_of_def)
  have b: "length aws_urls \<le> length [Response 503 None, Response 200 (Some (JObj []))]"
    by (simp add: aws_urls_def)
  show ?thesis
    using a b all_sources_fail [OF a b, of rejects]
    by (simp add: fetch_aws_instances_def)
qed

subsection \<open>The columns of the returned frame\<close>
















end
